theory Spec2Isabelle
  imports Main "HOL-Library.Word"
begin

section \<open>SLIP framing: the data model of \<^verbatim>\<open>slip.go\<close>\<close>

text \<open>
  A Go \<^verbatim>\<open>byte\<close> is an 8-bit word. The four constants of the wire format are the
  ones of the \<^verbatim>\<open>const\<close> block of the source.
\<close>

type_synonym byte = "8 word"

definition END :: byte where
  "END = 192"

definition ESC :: byte where
  "ESC = 219"

definition ESC_END :: byte where
  "ESC_END = 220"

definition ESC_ESC :: byte where
  "ESC_ESC = 221"

text \<open>
  Go's \<^verbatim>\<open>error\<close> values that the transport can hand back: \<^verbatim>\<open>io.EOF\<close>, or any other
  failure, identified by its message. A nil error is \<open>None\<close>.
\<close>

datatype error = EOF | IOError string

subsection \<open>The writer\<close>

text \<open>
  The \<^verbatim>\<open>for _, b := range p\<close> loop of \<^verbatim>\<open>WritePacket\<close>, with the \<^verbatim>\<open>bytes.Buffer\<close> it
  appends to passed along. \<^verbatim>\<open>bytes.Buffer.WriteByte\<close> always returns a nil error, so
  the early returns of the source are dead branches and the loop is total.
\<close>

fun WritePacket_loop :: "byte list \<Rightarrow> byte list \<Rightarrow> byte list" where
  "WritePacket_loop [] buf = buf"
| "WritePacket_loop (b # p) buf =
     WritePacket_loop p
       (if b = END then (buf @ [ESC]) @ [ESC_END]
        else if b = ESC then (buf @ [ESC]) @ [ESC_ESC]
        else buf @ [b])"

text \<open>
  The content of the buffer when the source reaches \<^verbatim>\<open>s.w.Write(buf.Bytes())\<close>: the
  initial \<open>END\<close>, the loop over the payload, the final \<open>END\<close>.
\<close>

definition WritePacket_frame :: "byte list \<Rightarrow> byte list" where
  "WritePacket_frame p = WritePacket_loop p ([] @ [END]) @ [END]"

text \<open>
  An \<^verbatim>\<open>io.Writer\<close> is a state \<open>'w\<close> with a \<^verbatim>\<open>Write\<close> method: given the bytes, it
  returns the count written and the error, and the state after the call.
  \<^verbatim>\<open>WritePacket\<close> drops the count and returns the error. The mutex of the source
  serialises whole calls and has no part in a sequential model.
\<close>

type_synonym 'w io_writer = "'w \<Rightarrow> byte list \<Rightarrow> (int \<times> error option) \<times> 'w"

definition WritePacket :: "'w io_writer \<Rightarrow> 'w \<Rightarrow> byte list \<Rightarrow> error option \<times> 'w" where
  "WritePacket wr w p =
     (let buf = WritePacket_frame p in
      case wr w buf of ((n, err), w') \<Rightarrow> (err, w'))"

subsection \<open>The reader\<close>

text \<open>
  One call \<^verbatim>\<open>s.r.Read(readBuf)\<close> on the one-byte buffer: the count \<open>rd_n\<close>, the
  content of \<^verbatim>\<open>readBuf[0]\<close> after the call, and the error. An \<^verbatim>\<open>io.Reader\<close> is a
  state \<open>'r\<close> with that method.
\<close>

record read_res =
  rd_n :: int
  rd_byte :: byte
  rd_err :: "error option"

type_synonym 'r io_reader = "'r \<Rightarrow> read_res \<times> 'r"

text \<open>The three named results of \<^verbatim>\<open>ReadPacket\<close>.\<close>

record read_ret =
  ret_p :: "byte list"
  ret_isPrefix :: bool
  ret_err :: "error option"

text \<open>
  The \<^verbatim>\<open>for\<close> loop of \<^verbatim>\<open>ReadPacket\<close>, with the accumulation buffer as an argument.
  The loop has no bound: on a source that never fails and never delivers a terminating
  \<open>END\<close> it runs forever, which is the value \<open>None\<close>.
\<close>

partial_function (option) ReadPacket_loop ::
  "'r io_reader \<Rightarrow> 'r \<Rightarrow> byte list \<Rightarrow> (read_ret \<times> 'r) option" where
  "ReadPacket_loop rd r buf =
     (case rd r of (res, r1) \<Rightarrow>
        if rd_n res = 0 \<or> rd_err res \<noteq> None then
          Some (\<lparr>ret_p = buf, ret_isPrefix = True, ret_err = rd_err res\<rparr>, r1)
        else if rd_byte res = END then
          (if length buf > 0 then
             Some (\<lparr>ret_p = buf, ret_isPrefix = False, ret_err = rd_err res\<rparr>, r1)
           else ReadPacket_loop rd r1 buf)
        else if rd_byte res = ESC then
          (case rd r1 of (res2, r2) \<Rightarrow>
             if rd_n res2 = 0 \<or> rd_err res2 \<noteq> None then
               Some (\<lparr>ret_p = buf, ret_isPrefix = True, ret_err = rd_err res2\<rparr>, r2)
             else
               ReadPacket_loop rd r2
                 (buf @ [if rd_byte res2 = ESC_END then END
                         else if rd_byte res2 = ESC_ESC then ESC
                         else rd_byte res2]))
        else ReadPacket_loop rd r1 (buf @ [rd_byte res]))"

declare ReadPacket_loop.simps [code]

definition ReadPacket :: "'r io_reader \<Rightarrow> 'r \<Rightarrow> (read_ret \<times> 'r) option" where
  "ReadPacket rd r = ReadPacket_loop rd r []"

subsection \<open>Transports used to run the code\<close>

text \<open>A read that delivers the byte \<open>b\<close> with a nil error.\<close>

definition ok_byte :: "byte \<Rightarrow> read_res" where
  "ok_byte b = \<lparr>rd_n = 1, rd_byte = b, rd_err = None\<rparr>"

text \<open>
  \<open>delivers rd r bs r'\<close>: started in state \<open>r\<close>, the next \<open>length bs\<close> calls of
  \<^verbatim>\<open>Read\<close> succeed and deliver the bytes \<open>bs\<close> in order, leaving the reader in
  state \<open>r'\<close>.
\<close>

fun delivers :: "'r io_reader \<Rightarrow> 'r \<Rightarrow> byte list \<Rightarrow> 'r \<Rightarrow> bool" where
  "delivers rd r [] r' = (r' = r)"
| "delivers rd r (b # bs) r' =
     (case rd r of (res, r1) \<Rightarrow> res = ok_byte b \<and> delivers rd r1 bs r')"

text \<open>
  A reader that replays a list of prepared results, one per call, and reports
  \<^verbatim>\<open>(0, io.EOF)\<close> once the list is used up, as \<^verbatim>\<open>bytes.Reader\<close> does at its end.
\<close>

fun script_read :: "read_res list io_reader" where
  "script_read [] = (\<lparr>rd_n = 0, rd_byte = 0, rd_err = Some EOF\<rparr>, [])"
| "script_read (x # xs) = (x, xs)"

definition bytes_script :: "byte list \<Rightarrow> read_res list" where
  "bytes_script bs = map ok_byte bs"

text \<open>A reader that never ends and never fails: every call delivers the byte \<open>b\<close>.\<close>

definition endless_read :: "byte \<Rightarrow> unit io_reader" where
  "endless_read b u = (ok_byte b, u)"

text \<open>
  A writer that appends to a byte sequence and always succeeds, as \<^verbatim>\<open>bytes.Buffer\<close>
  does, and a writer that takes nothing and always fails with the given error.
\<close>

definition sink_write :: "(byte list) io_writer" where
  "sink_write w bs = ((int (length bs), None), w @ bs)"

definition fail_write :: "error \<Rightarrow> (byte list) io_writer" where
  "fail_write e w bs = ((0, Some e), w)"

text \<open>
  Any writer, instrumented: the state also holds the argument of every call of
  \<^verbatim>\<open>Write\<close> made so far, oldest first.
\<close>

definition logging :: "'w io_writer \<Rightarrow> (byte list list \<times> 'w) io_writer" where
  "logging wr lw bs =
     (case lw of (calls, w) \<Rightarrow>
        case wr w bs of (res, w') \<Rightarrow> (res, (calls @ [bs], w')))"

subsection \<open>The wire format as the specification words it\<close>

text \<open>
  A stuffed payload byte: \<open>ESC, escaped-END\<close> for \<open>END\<close>, \<open>ESC, escaped-ESC\<close> for
  \<open>ESC\<close>, the byte itself otherwise.
\<close>

definition stuff :: "byte \<Rightarrow> byte list" where
  "stuff b = (if b = END then [ESC, ESC_END] else if b = ESC then [ESC, ESC_ESC] else [b])"

text \<open>The four reserved byte values of the specification's data model.\<close>

definition reserved :: "byte \<Rightarrow> bool" where
  "reserved b = (b = END \<or> b = ESC \<or> b = ESC_END \<or> b = ESC_ESC)"

text \<open>
  A byte at position \<open>i\<close> of a frame is escaped when it belongs to a two-byte escape
  sequence: it is an \<open>ESC\<close> followed by \<open>escaped-END\<close> or \<open>escaped-ESC\<close>, or it is one of
  these two right after an \<open>ESC\<close>.
\<close>

definition escaped_at :: "byte list \<Rightarrow> nat \<Rightarrow> bool" where
  "escaped_at f i =
     ((f ! i = ESC \<and> Suc i < length f \<and> (f ! Suc i = ESC_END \<or> f ! Suc i = ESC_ESC)) \<or>
      ((f ! i = ESC_END \<or> f ! i = ESC_ESC) \<and> 0 < i \<and> f ! (i - 1) = ESC))"

text \<open>
  Every \<open>ESC\<close> of a byte sequence is followed, inside the sequence, by \<open>escaped-END\<close>
  or \<open>escaped-ESC\<close>.
\<close>

fun esc_ok :: "byte list \<Rightarrow> bool" where
  "esc_ok [] = True"
| "esc_ok (b # bs) =
     ((if b = ESC then (case bs of [] \<Rightarrow> False | c # cs \<Rightarrow> c = ESC_END \<or> c = ESC_ESC)
       else True) \<and> esc_ok bs)"

section \<open>Basic facts about the loops\<close>

subsection \<open>One turn of the read loop\<close>

lemmas slip_consts = END_def ESC_def ESC_END_def ESC_ESC_def

lemma consts_distinct:
  "END \<noteq> ESC" "ESC \<noteq> END" "END \<noteq> ESC_END" "END \<noteq> ESC_ESC"
  "ESC \<noteq> ESC_END" "ESC \<noteq> ESC_ESC" "ESC_END \<noteq> END" "ESC_ESC \<noteq> END"
  "ESC_END \<noteq> ESC" "ESC_ESC \<noteq> ESC" "ESC_END \<noteq> ESC_ESC" "ESC_ESC \<noteq> ESC_END"
  by (simp_all add: slip_consts)

lemma ReadPacket_loop_stop:
  "rd r = (res, r1) \<Longrightarrow> rd_n res = 0 \<or> rd_err res \<noteq> None \<Longrightarrow>
   ReadPacket_loop rd r buf = Some (\<lparr>ret_p = buf, ret_isPrefix = True, ret_err = rd_err res\<rparr>, r1)"
  by (subst ReadPacket_loop.simps) simp

lemma ReadPacket_loop_END:
  "rd r = (ok_byte END, r1) \<Longrightarrow>
   ReadPacket_loop rd r buf =
     (if buf \<noteq> [] then Some (\<lparr>ret_p = buf, ret_isPrefix = False, ret_err = None\<rparr>, r1)
      else ReadPacket_loop rd r1 buf)"
  by (subst ReadPacket_loop.simps) (simp add: ok_byte_def)

lemma ReadPacket_loop_lit:
  "rd r = (ok_byte b, r1) \<Longrightarrow> b \<noteq> END \<Longrightarrow> b \<noteq> ESC \<Longrightarrow>
   ReadPacket_loop rd r buf = ReadPacket_loop rd r1 (buf @ [b])"
  by (subst ReadPacket_loop.simps) (simp add: ok_byte_def)

lemma ReadPacket_loop_ESC_stop:
  "rd r = (ok_byte ESC, r1) \<Longrightarrow> rd r1 = (res2, r2) \<Longrightarrow> rd_n res2 = 0 \<or> rd_err res2 \<noteq> None \<Longrightarrow>
   ReadPacket_loop rd r buf = Some (\<lparr>ret_p = buf, ret_isPrefix = True, ret_err = rd_err res2\<rparr>, r2)"
  by (subst ReadPacket_loop.simps) (simp add: ok_byte_def consts_distinct)

lemma ReadPacket_loop_ESC:
  "rd r = (ok_byte ESC, r1) \<Longrightarrow> rd r1 = (ok_byte c, r2) \<Longrightarrow>
   ReadPacket_loop rd r buf =
     ReadPacket_loop rd r2
       (buf @ [if c = ESC_END then END else if c = ESC_ESC then ESC else c])"
  by (subst ReadPacket_loop.simps) (simp add: ok_byte_def consts_distinct)

subsection \<open>The write loop and the bytes a reader delivers\<close>

lemma WritePacket_loop_stuff: "WritePacket_loop p buf = buf @ concat (map stuff p)"
  by (induction p arbitrary: buf) (simp_all add: stuff_def)

lemma delivers_append:
  "delivers rd r (xs @ ys) r' = (\<exists>r1. delivers rd r xs r1 \<and> delivers rd r1 ys r')"
  by (induction xs arbitrary: r) (auto split: prod.splits)

lemma delivers_script: "delivers script_read (bytes_script bs @ rest) bs r' = (r' = rest)"
  by (induction bs) (auto simp: bytes_script_def)

subsection \<open>Reading stuffed bytes back\<close>

lemma ReadPacket_loop_stuff:
  "delivers rd r (stuff b) r' \<Longrightarrow>
   ReadPacket_loop rd r buf = ReadPacket_loop rd r' (buf @ [b])"
  by (auto simp: stuff_def consts_distinct ReadPacket_loop_ESC [where rd = rd and r = r]
      ReadPacket_loop_lit [where rd = rd and r = r] split: if_splits prod.splits)

lemma ReadPacket_loop_stuffed:
  "delivers rd r (concat (map stuff q)) r' \<Longrightarrow>
   ReadPacket_loop rd r buf = ReadPacket_loop rd r' (buf @ q)"
proof (induction q arbitrary: r buf)
  case Nil
  then show ?case by simp
next
  case (Cons b q)
  from Cons.prems obtain r1
    where b: "delivers rd r (stuff b) r1" and q: "delivers rd r1 (concat (map stuff q)) r'"
    by (auto simp: delivers_append)
  have "ReadPacket_loop rd r buf = ReadPacket_loop rd r1 (buf @ [b])"
    using b by (rule ReadPacket_loop_stuff)
  also have "\<dots> = ReadPacket_loop rd r' ((buf @ [b]) @ q)"
    using q by (rule Cons.IH)
  finally show ?case by simp
qed

subsection \<open>Partial correctness of the read loop\<close>

text \<open>Both facts are by fixpoint induction on the loop: they speak of every call that returns.\<close>

lemma ReadPacket_loop_nonempty:
  assumes "ReadPacket_loop rd r buf = Some y"
  shows "\<not> ret_isPrefix (fst y) \<longrightarrow> ret_p (fst y) \<noteq> []"
  by (rule ReadPacket_loop.raw_induct
      [where P = "\<lambda>rd r buf y. \<not> ret_isPrefix (fst y) \<longrightarrow> ret_p (fst y) \<noteq> []", OF _ assms])
    (auto split: prod.splits if_splits)

lemma ReadPacket_loop_END_forever:
  assumes inv: "\<And>s. I s \<Longrightarrow> \<exists>s'. rd s = (ok_byte END, s') \<and> I s'"
    and ret: "ReadPacket_loop rd r buf = Some y"
  shows "I r \<longrightarrow> buf \<noteq> []"
proof -
  have "rd = rd \<longrightarrow> I r \<longrightarrow> buf \<noteq> []"
    apply (rule ReadPacket_loop.raw_induct
        [where P = "\<lambda>rd' r buf y. rd' = rd \<longrightarrow> I r \<longrightarrow> buf \<noteq> []", OF _ ret])
    subgoal premises prems for loop rd' r buf y
    proof (intro impI)
      assume rd': "rd' = rd" and r: "I r"
      from inv [OF r] obtain s' where s': "rd r = (ok_byte END, s')" "I s'"
        by blast
      show "buf \<noteq> []"
        using prems(2) prems(1) [of rd s' "[]" y] rd' s'
        by (auto simp: ok_byte_def split: if_splits)
    qed
    done
  then show ?thesis by simp
qed

lemma ReadPacket_loop_ENDs:
  "delivers rd r (replicate n END) r' \<Longrightarrow> ReadPacket_loop rd r [] = ReadPacket_loop rd r' []"
  by (induction n arbitrary: r) (auto simp: ReadPacket_loop_END split: prod.splits)

subsection \<open>Running the read loop on a prepared script\<close>

lemma delivers_script_all: "delivers script_read (bytes_script bs) bs r' = (r' = [])"
  using delivers_script [of bs "[]" r'] by simp

lemma ReadPacket_loop_script_Nil:
  "ReadPacket_loop script_read [] buf =
     Some (\<lparr>ret_p = buf, ret_isPrefix = True, ret_err = Some EOF\<rparr>, [])"
  by (subst ReadPacket_loop.simps) simp

lemma ReadPacket_loop_script_Cons:
  "ReadPacket_loop script_read (x # xs) buf =
     (if rd_n x = 0 \<or> rd_err x \<noteq> None then
        Some (\<lparr>ret_p = buf, ret_isPrefix = True, ret_err = rd_err x\<rparr>, xs)
      else if rd_byte x = END then
        (if buf \<noteq> [] then Some (\<lparr>ret_p = buf, ret_isPrefix = False, ret_err = None\<rparr>, xs)
         else ReadPacket_loop script_read xs buf)
      else if rd_byte x = ESC then
        (case script_read xs of (x2, xs2) \<Rightarrow>
           if rd_n x2 = 0 \<or> rd_err x2 \<noteq> None then
             Some (\<lparr>ret_p = buf, ret_isPrefix = True, ret_err = rd_err x2\<rparr>, xs2)
           else ReadPacket_loop script_read xs2
             (buf @ [if rd_byte x2 = ESC_END then END
                     else if rd_byte x2 = ESC_ESC then ESC else rd_byte x2]))
      else ReadPacket_loop script_read xs (buf @ [rd_byte x]))"
  by (subst ReadPacket_loop.simps) auto

lemmas script_eval =
  ReadPacket_def ReadPacket_loop_script_Nil ReadPacket_loop_script_Cons
  bytes_script_def ok_byte_def WritePacket_frame_def slip_consts

subsection \<open>The writer's frame\<close>

lemma WritePacket_logging:
  "WritePacket (logging wr) (calls, w) p =
     (snd (fst (wr w (WritePacket_frame p))),
      (calls @ [WritePacket_frame p], snd (wr w (WritePacket_frame p))))"
  by (cases "wr w (WritePacket_frame p)") (auto simp: WritePacket_def logging_def Let_def)

lemma WritePacket_frame_stuff: "WritePacket_frame p = [END] @ concat (map stuff p) @ [END]"
  by (simp add: WritePacket_frame_def WritePacket_loop_stuff)

subsection \<open>Whole calls of \<^verbatim>\<open>ReadPacket\<close>\<close>

lemma delivers_Cons:
  "delivers rd r (b # bs) r' = (\<exists>r1. rd r = (ok_byte b, r1) \<and> delivers rd r1 bs r')"
  by (cases "rd r") auto

lemma delivers_frame:
  "delivers rd r (WritePacket_frame p) r' =
     (\<exists>r1 r2. rd r = (ok_byte END, r1) \<and> delivers rd r1 (concat (map stuff p)) r2 \<and>
        rd r2 = (ok_byte END, r'))"
  by (simp add: WritePacket_frame_stuff delivers_append delivers_Cons del: delivers.simps(2))

lemma ReadPacket_frame:
  assumes "delivers rd r (WritePacket_frame p) r'"
  shows "ReadPacket rd r =
     (if p \<noteq> [] then Some (\<lparr>ret_p = p, ret_isPrefix = False, ret_err = None\<rparr>, r')
      else ReadPacket rd r')"
proof -
  from assms obtain r1 r2
    where 1: "rd r = (ok_byte END, r1)"
      and 2: "delivers rd r1 (concat (map stuff p)) r2"
      and 3: "rd r2 = (ok_byte END, r')"
    by (auto simp: delivers_frame)
  have "ReadPacket rd r = ReadPacket_loop rd r1 []"
    using 1 by (simp add: ReadPacket_def ReadPacket_loop_END)
  also have "\<dots> = ReadPacket_loop rd r2 ([] @ p)"
    using 2 by (rule ReadPacket_loop_stuffed)
  also have "\<dots> =
     (if p \<noteq> [] then Some (\<lparr>ret_p = p, ret_isPrefix = False, ret_err = None\<rparr>, r')
      else ReadPacket rd r')"
    using 3 by (simp add: ReadPacket_def ReadPacket_loop_END)
  finally show ?thesis .
qed

lemma ReadPacket_ENDs_then_stop:
  assumes "delivers rd r (replicate n END) r1" and "rd r1 = (res, r2)"
    and "rd_n res = 0 \<or> rd_err res \<noteq> None"
  shows "ReadPacket rd r =
     Some (\<lparr>ret_p = [], ret_isPrefix = True, ret_err = rd_err res\<rparr>, r2)"
  using assms by (simp add: ReadPacket_def ReadPacket_loop_ENDs ReadPacket_loop_stop)

lemma ReadPacket_END_forever:
  assumes "\<forall>s. I s \<longrightarrow> (\<exists>s'. rd s = (ok_byte END, s') \<and> I s')" and "I r"
  shows "ReadPacket rd r = None"
proof (cases "ReadPacket rd r")
  case None
  then show ?thesis .
next
  case (Some y)
  then have "ReadPacket_loop rd r [] = Some y"
    by (simp add: ReadPacket_def)
  with assms ReadPacket_loop_END_forever [of I rd r "[]" y] show ?thesis
    by blast
qed

lemma ReadPacket_after_stuffed:
  assumes "delivers rd r (WritePacket_loop q [END]) r1"
  shows "ReadPacket rd r = ReadPacket_loop rd r1 q"
proof -
  from assms obtain r0
    where 0: "rd r = (ok_byte END, r0)" and 1: "delivers rd r0 (concat (map stuff q)) r1"
    by (auto simp: WritePacket_loop_stuff delivers_Cons simp del: delivers.simps(2))
  have "ReadPacket rd r = ReadPacket_loop rd r0 []"
    using 0 by (simp add: ReadPacket_def ReadPacket_loop_END)
  also have "\<dots> = ReadPacket_loop rd r1 ([] @ q)"
    using 1 by (rule ReadPacket_loop_stuffed)
  finally show ?thesis by simp
qed

lemma ReadPacket_after_stuffed_ESC:
  assumes "delivers rd r (WritePacket_loop q [END] @ [ESC]) r1" and "rd r1 = (res, r2)"
    and "rd_n res = 0 \<or> rd_err res \<noteq> None"
  shows "ReadPacket rd r =
     Some (\<lparr>ret_p = q, ret_isPrefix = True, ret_err = rd_err res\<rparr>, r2)"
proof -
  from assms(1) obtain r0
    where 0: "delivers rd r (WritePacket_loop q [END]) r0" and 1: "rd r0 = (ok_byte ESC, r1)"
    by (auto simp: delivers_append delivers_Cons simp del: delivers.simps(2))
  have "ReadPacket rd r = ReadPacket_loop rd r0 q"
    using 0 by (rule ReadPacket_after_stuffed)
  also have "\<dots> = Some (\<lparr>ret_p = q, ret_isPrefix = True, ret_err = rd_err res\<rparr>, r2)"
    using 1 assms(2,3) by (rule ReadPacket_loop_ESC_stop)
  finally show ?thesis .
qed

subsection \<open>Reserved bytes in a frame\<close>

lemma END_notin_stuffed: "END \<notin> set (concat (map stuff p))"
  by (induction p) (simp_all add: stuff_def consts_distinct)

lemma esc_ok_nth:
  "esc_ok xs \<Longrightarrow> i < length xs \<Longrightarrow> xs ! i = ESC \<Longrightarrow>
   Suc i < length xs \<and> (xs ! Suc i = ESC_END \<or> xs ! Suc i = ESC_ESC)"
proof (induction xs arbitrary: i)
  case Nil
  then show ?case by simp
next
  case (Cons b bs)
  show ?case
  proof (cases i)
    case 0
    with Cons.prems show ?thesis
      by (cases bs) auto
  next
    case (Suc j)
    with Cons.prems Cons.IH [of j] show ?thesis
      by simp
  qed
qed

lemma esc_ok_stuffed: "esc_ok (concat (map stuff p) @ [END])"
  by (induction p) (simp_all add: stuff_def consts_distinct)

lemma esc_ok_frame: "esc_ok (WritePacket_frame p)"
  using esc_ok_stuffed [of p] by (simp add: WritePacket_frame_stuff consts_distinct)

lemma stuffed_literal:
  "\<forall>x \<in> set q. x \<noteq> END \<and> x \<noteq> ESC \<Longrightarrow> concat (map stuff q) = q"
  by (induction q) (simp_all add: stuff_def)

lemma WritePacket_frame_literal_at:
  "b \<noteq> END \<and> b \<noteq> ESC \<Longrightarrow>
   WritePacket_frame (p1 @ [b] @ p2) =
     [END] @ concat (map stuff p1) @ [b] @ concat (map stuff p2) @ [END]"
  by (simp add: WritePacket_frame_stuff stuff_def)

lemma count_END_frame: "count_list (WritePacket_frame p) END = 2"
  using END_notin_stuffed [of p] by (simp add: WritePacket_frame_stuff)

section \<open>The claims\<close>

text \<open>
  C1, for non-empty payloads. For every non-empty payload \<open>p\<close>, a reader that delivers the frame
  of \<open>p\<close> makes \<^verbatim>\<open>ReadPacket\<close> return exactly \<open>p\<close> as a complete packet, with a nil
  error, having consumed the frame and nothing more. The frame of the empty payload is
  absorbed: the call goes on as a call started after it.
\<close>

theorem C1_roundtrip_nonempty:
  "(p \<noteq> [] \<longrightarrow> delivers rd r (WritePacket_frame p) r' \<longrightarrow>
      ReadPacket rd r = Some (\<lparr>ret_p = p, ret_isPrefix = False, ret_err = None\<rparr>, r')) \<and>
   (delivers rd r (WritePacket_frame []) r' \<longrightarrow> ReadPacket rd r = ReadPacket rd r')"
  by (simp add: ReadPacket_frame)

theorem C1_roundtrip_nonempty_witness:
  "[0xC0, 0xDB, 0x41, 0xDC] \<noteq> ([] :: byte list) \<and>
   delivers script_read
     (bytes_script (WritePacket_frame [0xC0, 0xDB, 0x41, 0xDC]) @ bytes_script [0x42])
     (WritePacket_frame [0xC0, 0xDB, 0x41, 0xDC]) (bytes_script [0x42]) \<and>
   ReadPacket script_read
     (bytes_script (WritePacket_frame [0xC0, 0xDB, 0x41, 0xDC]) @ bytes_script [0x42]) =
     Some (\<lparr>ret_p = [0xC0, 0xDB, 0x41, 0xDC], ret_isPrefix = False, ret_err = None\<rparr>,
           bytes_script [0x42])"
  using C1_roundtrip_nonempty [of "[0xC0, 0xDB, 0x41, 0xDC]" script_read
      "bytes_script (WritePacket_frame [0xC0, 0xDB, 0x41, 0xDC]) @ bytes_script [0x42]"
      "bytes_script [0x42]"]
  by (simp add: delivers_script)

text \<open>
  C1 at the empty payload, where the round trip fails: the frame \<open>C0 C0\<close> is
  skipped, and on a source that ends there \<^verbatim>\<open>ReadPacket\<close> reports an incomplete packet
  with \<^verbatim>\<open>io.EOF\<close>.
\<close>

theorem C1_empty_payload_counterexample:
  "ReadPacket script_read (bytes_script (WritePacket_frame [])) =
     Some (\<lparr>ret_p = [], ret_isPrefix = True, ret_err = Some EOF\<rparr>, []) \<and>
   ReadPacket script_read (bytes_script (WritePacket_frame [])) \<noteq>
     Some (\<lparr>ret_p = [], ret_isPrefix = False, ret_err = None\<rparr>, [])"
  by (simp add: script_eval)


text \<open>
  C2. The byte sequence that \<^verbatim>\<open>WritePacket(p)\<close> assembles, and hands to the writer, is
  \<open>END\<close>, then each payload byte stuffed as the wire format says, then \<open>END\<close>; the
  payloads \<open>[0xC0]\<close>, \<open>[0xDB]\<close> and \<open>[]\<close> give the frames \<open>C0 DB DC C0\<close>,
  \<open>C0 DB DD C0\<close> and \<open>C0 C0\<close>.
\<close>

theorem C2_frame_format:
  "WritePacket_frame p = [END] @ concat (map stuff p) @ [END] \<and>
   fst (snd (WritePacket (logging wr) (calls, w) p)) =
     calls @ [[END] @ concat (map stuff p) @ [END]] \<and>
   WritePacket_frame [0xC0] = [0xC0, 0xDB, 0xDC, 0xC0] \<and>
   WritePacket_frame [0xDB] = [0xC0, 0xDB, 0xDD, 0xC0] \<and>
   WritePacket_frame [] = [0xC0, 0xC0]"
  by (simp add: WritePacket_logging WritePacket_frame_stuff stuff_def slip_consts)

theorem C2_frame_format_witness:
  "fst (snd (WritePacket (logging sink_write) ([], []) [0x01, 0xC0, 0xDB, 0xDC])) =
     [[0xC0, 0x01, 0xDB, 0xDC, 0xDB, 0xDD, 0xDC, 0xC0]] \<and>
   snd (snd (WritePacket (logging sink_write) ([], []) [0x01, 0xC0, 0xDB, 0xDC])) =
     [0xC0, 0x01, 0xDB, 0xDC, 0xDB, 0xDD, 0xDC, 0xC0]"
  using C2_frame_format [of "[0x01, 0xC0, 0xDB, 0xDC]" sink_write "[]" "[]"]
  by (simp add: WritePacket_logging sink_write_def stuff_def slip_consts)


text \<open>
  C3. \<^verbatim>\<open>ReadPacket\<close> never returns an empty packet as complete. An \<open>END\<close> read on an
  empty buffer is dropped and the loop goes on; so after any number of \<open>END\<close> bytes
  the call returns only when a read fails or delivers nothing, with an empty, incomplete
  packet, and on a source that delivers \<open>END\<close> for ever it does not return.
\<close>

theorem C3_no_empty_packet:
  "(ReadPacket rd r = Some (ret, r') \<longrightarrow> \<not> ret_isPrefix ret \<longrightarrow> ret_p ret \<noteq> []) \<and>
   (rd r = (ok_byte END, r1) \<longrightarrow> ReadPacket_loop rd r [] = ReadPacket_loop rd r1 []) \<and>
   (delivers rd r (replicate n END) r1 \<longrightarrow> rd r1 = (res, r2) \<longrightarrow>
      rd_n res = 0 \<or> rd_err res \<noteq> None \<longrightarrow>
      ReadPacket rd r = Some (\<lparr>ret_p = [], ret_isPrefix = True, ret_err = rd_err res\<rparr>, r2)) \<and>
   ((\<forall>s. I s \<longrightarrow> (\<exists>s'. rd s = (ok_byte END, s') \<and> I s')) \<longrightarrow> I r \<longrightarrow>
      ReadPacket rd r = None)"
proof (intro conjI impI)
  assume "ReadPacket rd r = Some (ret, r')" and "\<not> ret_isPrefix ret"
  then show "ret_p ret \<noteq> []"
    using ReadPacket_loop_nonempty [of rd r "[]" "(ret, r')"] by (simp add: ReadPacket_def)
next
  assume "rd r = (ok_byte END, r1)"
  then show "ReadPacket_loop rd r [] = ReadPacket_loop rd r1 []"
    by (simp add: ReadPacket_loop_END)
next
  assume "delivers rd r (replicate n END) r1" "rd r1 = (res, r2)"
    "rd_n res = 0 \<or> rd_err res \<noteq> None"
  then show "ReadPacket rd r =
      Some (\<lparr>ret_p = [], ret_isPrefix = True, ret_err = rd_err res\<rparr>, r2)"
    by (rule ReadPacket_ENDs_then_stop)
next
  assume "\<forall>s. I s \<longrightarrow> (\<exists>s'. rd s = (ok_byte END, s') \<and> I s')" "I r"
  then show "ReadPacket rd r = None"
    by (rule ReadPacket_END_forever)
qed

theorem C3_no_empty_packet_witness:
  "ReadPacket script_read (bytes_script [0xC0, 0xC0, 0x41, 0xC0]) =
     Some (\<lparr>ret_p = [0x41], ret_isPrefix = False, ret_err = None\<rparr>, []) \<and>
   delivers script_read (bytes_script (replicate 3 END)) (replicate 3 END) [] \<and>
   ReadPacket script_read (bytes_script (replicate 3 END)) =
     Some (\<lparr>ret_p = [], ret_isPrefix = True, ret_err = Some EOF\<rparr>, []) \<and>
   ReadPacket (endless_read END) () = None"
proof -
  have 1: "ReadPacket script_read (bytes_script [0xC0, 0xC0, 0x41, 0xC0]) =
     Some (\<lparr>ret_p = [0x41], ret_isPrefix = False, ret_err = None\<rparr>, [])"
    by (simp add: script_eval)
  have 2: "delivers script_read (bytes_script (replicate 3 END)) (replicate 3 END) []"
    by (simp add: delivers_script_all)
  have 3: "ReadPacket script_read (bytes_script (replicate 3 END)) =
     Some (\<lparr>ret_p = [], ret_isPrefix = True, ret_err = Some EOF\<rparr>, [])"
    using 2 C3_no_empty_packet [where rd = script_read
        and r = "bytes_script (replicate 3 END)" and n = 3 and ?r1.0 = "[]"
        and res = "\<lparr>rd_n = 0, rd_byte = 0, rd_err = Some EOF\<rparr>" and ?r2.0 = "[]"]
    by simp
  have 4: "ReadPacket (endless_read END) () = None"
    using C3_no_empty_packet [where rd = "endless_read END" and r = "()" and I = "\<lambda>_. True"]
    by (simp add: endless_read_def)
  from 1 2 3 4 show ?thesis by simp
qed


text \<open>
  C4. When a read delivers \<open>ESC\<close> and the next read delivers a byte \<open>X\<close> that is neither
  \<open>escaped-END\<close> nor \<open>escaped-ESC\<close>, the loop appends \<open>X\<close> itself to the buffer and goes
  on reading the same packet, without returning. So a frame whose stuffed payload holds
  such a pair \<open>ESC, X\<close> decodes to a complete packet with the literal \<open>X\<close> at that place
  and a nil error.
\<close>

theorem C4_escape_leniency:
  "X \<noteq> ESC_END \<and> X \<noteq> ESC_ESC \<longrightarrow>
   (rd r = (ok_byte ESC, r1) \<longrightarrow> rd r1 = (ok_byte X, r2) \<longrightarrow>
      ReadPacket_loop rd r buf = ReadPacket_loop rd r2 (buf @ [X])) \<and>
   (delivers rd r (WritePacket_loop q1 [END]) r1 \<longrightarrow>
    delivers rd r1 ([ESC, X] @ concat (map stuff q2) @ [END]) r2 \<longrightarrow>
      ReadPacket rd r =
        Some (\<lparr>ret_p = q1 @ [X] @ q2, ret_isPrefix = False, ret_err = None\<rparr>, r2))"
proof (intro impI conjI)
  assume X: "X \<noteq> ESC_END \<and> X \<noteq> ESC_ESC"
  {
    assume "rd r = (ok_byte ESC, r1)" "rd r1 = (ok_byte X, r2)"
    then show "ReadPacket_loop rd r buf = ReadPacket_loop rd r2 (buf @ [X])"
      using X by (simp add: ReadPacket_loop_ESC)
  }
  assume 1: "delivers rd r (WritePacket_loop q1 [END]) r1"
    and 2: "delivers rd r1 ([ESC, X] @ concat (map stuff q2) @ [END]) r2"
  from 2 obtain s1 s2 s3
    where esc: "rd r1 = (ok_byte ESC, s1)" and x: "rd s1 = (ok_byte X, s2)"
      and q2: "delivers rd s2 (concat (map stuff q2)) s3" and e: "rd s3 = (ok_byte END, r2)"
    by (auto simp: delivers_append delivers_Cons simp del: delivers.simps(2))
  have "ReadPacket rd r = ReadPacket_loop rd r1 q1"
    using 1 by (rule ReadPacket_after_stuffed)
  also have "\<dots> = ReadPacket_loop rd s2 (q1 @ [X])"
    using esc x X by (simp add: ReadPacket_loop_ESC)
  also have "\<dots> = ReadPacket_loop rd s3 ((q1 @ [X]) @ q2)"
    using q2 by (rule ReadPacket_loop_stuffed)
  also have "\<dots> = Some (\<lparr>ret_p = q1 @ [X] @ q2, ret_isPrefix = False, ret_err = None\<rparr>, r2)"
    using e by (simp add: ReadPacket_loop_END)
  finally show "ReadPacket rd r =
      Some (\<lparr>ret_p = q1 @ [X] @ q2, ret_isPrefix = False, ret_err = None\<rparr>, r2)" .
qed

theorem C4_escape_leniency_witness:
  "(0x42 :: byte) \<noteq> ESC_END \<and> (0x42 :: byte) \<noteq> ESC_ESC \<and>
   ReadPacket_loop script_read (bytes_script [0xDB, 0x42, 0x43, 0xC0]) [0x41] =
     ReadPacket_loop script_read (bytes_script [0x43, 0xC0]) [0x41, 0x42] \<and>
   ReadPacket script_read (bytes_script [0xC0, 0x41, 0xDB, 0x42, 0x43, 0xC0]) =
     Some (\<lparr>ret_p = [0x41, 0x42, 0x43], ret_isPrefix = False, ret_err = None\<rparr>, [])"
proof -
  have X: "(0x42 :: byte) \<noteq> ESC_END \<and> (0x42 :: byte) \<noteq> ESC_ESC"
    by (simp add: slip_consts)
  have 1: "ReadPacket_loop script_read (bytes_script [0xDB, 0x42, 0x43, 0xC0]) [0x41] =
     ReadPacket_loop script_read (bytes_script [0x43, 0xC0]) [0x41, 0x42]"
    using X C4_escape_leniency [where X = "0x42" and rd = script_read
        and r = "bytes_script [0xDB, 0x42, 0x43, 0xC0]" and ?r1.0 = "bytes_script [0x42, 0x43, 0xC0]"
        and ?r2.0 = "bytes_script [0x43, 0xC0]" and buf = "[0x41]"]
    by (simp add: bytes_script_def slip_consts)
  have 2: "ReadPacket script_read (bytes_script [0xC0, 0x41, 0xDB, 0x42, 0x43, 0xC0]) =
     Some (\<lparr>ret_p = [0x41, 0x42, 0x43], ret_isPrefix = False, ret_err = None\<rparr>, [])"
    using X C4_escape_leniency [where X = "0x42" and rd = script_read
        and r = "bytes_script [0xC0, 0x41, 0xDB, 0x42, 0x43, 0xC0]"
        and ?r1.0 = "bytes_script [0xDB, 0x42, 0x43, 0xC0]"
        and ?r2.0 = "[]" and ?q1.0 = "[0x41]" and ?q2.0 = "[0x43]"]
    by (simp add: bytes_script_def slip_consts stuff_def ok_byte_def)
  from X 1 2 show ?thesis by simp
qed


text \<open>
  C5. When a read fails (a non-nil error, \<^verbatim>\<open>io.EOF\<close> of a closed source included) before
  the terminating \<open>END\<close>, whether it is the read of a new byte or the read that follows
  an \<open>ESC\<close>, \<^verbatim>\<open>ReadPacket\<close> returns the bytes accumulated so far with
  \<^verbatim>\<open>isPrefix = true\<close> and that error. So a source that delivers the beginning of a
  frame, the stuffed payload \<open>q\<close> after the leading \<open>END\<close>, and then fails gives back \<open>q\<close>.
\<close>

theorem C5_truncation:
  "rd_err res = Some e \<longrightarrow>
   (rd r = (res, r1) \<longrightarrow>
      ReadPacket_loop rd r buf =
        Some (\<lparr>ret_p = buf, ret_isPrefix = True, ret_err = Some e\<rparr>, r1)) \<and>
   (rd r = (ok_byte ESC, r1) \<longrightarrow> rd r1 = (res, r2) \<longrightarrow>
      ReadPacket_loop rd r buf =
        Some (\<lparr>ret_p = buf, ret_isPrefix = True, ret_err = Some e\<rparr>, r2)) \<and>
   (delivers rd r (WritePacket_loop q [END]) r1 \<longrightarrow> rd r1 = (res, r2) \<longrightarrow>
      ReadPacket rd r = Some (\<lparr>ret_p = q, ret_isPrefix = True, ret_err = Some e\<rparr>, r2)) \<and>
   (delivers rd r (WritePacket_loop q [END] @ [ESC]) r1 \<longrightarrow> rd r1 = (res, r2) \<longrightarrow>
      ReadPacket rd r = Some (\<lparr>ret_p = q, ret_isPrefix = True, ret_err = Some e\<rparr>, r2))"
proof (intro impI conjI)
  assume e: "rd_err res = Some e"
  {
    assume "rd r = (res, r1)"
    then show "ReadPacket_loop rd r buf =
        Some (\<lparr>ret_p = buf, ret_isPrefix = True, ret_err = Some e\<rparr>, r1)"
      using e ReadPacket_loop_stop [of rd r res r1 buf] by simp
  }
  {
    assume "rd r = (ok_byte ESC, r1)" "rd r1 = (res, r2)"
    then show "ReadPacket_loop rd r buf =
        Some (\<lparr>ret_p = buf, ret_isPrefix = True, ret_err = Some e\<rparr>, r2)"
      using e ReadPacket_loop_ESC_stop [of rd r r1 res r2 buf] by simp
  }
  {
    assume "delivers rd r (WritePacket_loop q [END]) r1" "rd r1 = (res, r2)"
    then show "ReadPacket rd r =
        Some (\<lparr>ret_p = q, ret_isPrefix = True, ret_err = Some e\<rparr>, r2)"
      using e ReadPacket_loop_stop [of rd r1 res r2 q]
      by (simp add: ReadPacket_after_stuffed)
  }
  assume "delivers rd r (WritePacket_loop q [END] @ [ESC]) r1" "rd r1 = (res, r2)"
  then show "ReadPacket rd r =
      Some (\<lparr>ret_p = q, ret_isPrefix = True, ret_err = Some e\<rparr>, r2)"
    using e ReadPacket_after_stuffed_ESC [of rd r q r1 res r2] by simp
qed

theorem C5_truncation_witness:
  "delivers script_read
     (bytes_script [0xC0, 0x41, 0xDB, 0xDC] @ [\<lparr>rd_n = 0, rd_byte = 0, rd_err = Some (IOError ''timeout'')\<rparr>])
     (WritePacket_loop [0x41, 0xC0] [END])
     [\<lparr>rd_n = 0, rd_byte = 0, rd_err = Some (IOError ''timeout'')\<rparr>] \<and>
   ReadPacket script_read
     (bytes_script [0xC0, 0x41, 0xDB, 0xDC] @ [\<lparr>rd_n = 0, rd_byte = 0, rd_err = Some (IOError ''timeout'')\<rparr>]) =
     Some (\<lparr>ret_p = [0x41, 0xC0], ret_isPrefix = True, ret_err = Some (IOError ''timeout'')\<rparr>, []) \<and>
   delivers script_read (bytes_script [0xC0, 0x41, 0xDB]) (WritePacket_loop [0x41] [END] @ [ESC]) [] \<and>
   ReadPacket script_read (bytes_script [0xC0, 0x41, 0xDB]) =
     Some (\<lparr>ret_p = [0x41], ret_isPrefix = True, ret_err = Some EOF\<rparr>, [])"
proof -
  have 1: "delivers script_read
     (bytes_script [0xC0, 0x41, 0xDB, 0xDC] @ [\<lparr>rd_n = 0, rd_byte = 0, rd_err = Some (IOError ''timeout'')\<rparr>])
     (WritePacket_loop [0x41, 0xC0] [END])
     [\<lparr>rd_n = 0, rd_byte = 0, rd_err = Some (IOError ''timeout'')\<rparr>]"
    by (simp add: bytes_script_def slip_consts)
  have 2: "ReadPacket script_read
     (bytes_script [0xC0, 0x41, 0xDB, 0xDC] @ [\<lparr>rd_n = 0, rd_byte = 0, rd_err = Some (IOError ''timeout'')\<rparr>]) =
     Some (\<lparr>ret_p = [0x41, 0xC0], ret_isPrefix = True, ret_err = Some (IOError ''timeout'')\<rparr>, [])"
    using 1 C5_truncation [where rd = script_read and e = "IOError ''timeout''"
        and res = "\<lparr>rd_n = 0, rd_byte = 0, rd_err = Some (IOError ''timeout'')\<rparr>"
        and q = "[0x41, 0xC0]" and ?r2.0 = "[]"
        and ?r1.0 = "[\<lparr>rd_n = 0, rd_byte = 0, rd_err = Some (IOError ''timeout'')\<rparr>]"
        and r = "bytes_script [0xC0, 0x41, 0xDB, 0xDC] @ [\<lparr>rd_n = 0, rd_byte = 0, rd_err = Some (IOError ''timeout'')\<rparr>]"]
    by simp
  have 3: "delivers script_read (bytes_script [0xC0, 0x41, 0xDB]) (WritePacket_loop [0x41] [END] @ [ESC]) []"
    by (simp add: bytes_script_def slip_consts)
  have 4: "ReadPacket script_read (bytes_script [0xC0, 0x41, 0xDB]) =
     Some (\<lparr>ret_p = [0x41], ret_isPrefix = True, ret_err = Some EOF\<rparr>, [])"
    using 3 C5_truncation [where rd = script_read and e = EOF
        and res = "\<lparr>rd_n = 0, rd_byte = 0, rd_err = Some EOF\<rparr>"
        and q = "[0x41]" and ?r2.0 = "[]" and ?r1.0 = "[]"
        and r = "bytes_script [0xC0, 0x41, 0xDB]"]
    by simp
  from 1 2 3 4 show ?thesis by simp
qed


text \<open>
  C6, for \<open>END\<close> and \<open>ESC\<close>. In the frame of any payload, \<open>END\<close> occurs exactly twice, as the
  first and as the last byte, and not in the stuffed region between them; every \<open>ESC\<close>
  of the frame is followed at once by \<open>escaped-END\<close> or \<open>escaped-ESC\<close>. So neither
  \<open>END\<close> nor \<open>ESC\<close> stands unescaped in the stuffed region. The two other reserved
  values are not part of this: a payload byte \<open>0xDC\<close> or \<open>0xDD\<close>, as every byte other
  than \<open>END\<close> and \<open>ESC\<close>, is sent as it is, wherever it stands in the payload: the
  frame of \<open>p1 @ [b] @ p2\<close> has the single byte \<open>b\<close> between the stuffed bytes of \<open>p1\<close>
  and those of \<open>p2\<close>, and a payload without \<open>END\<close> and \<open>ESC\<close> is sent unchanged between
  the two \<open>END\<close> bytes.
\<close>

theorem C6_END_and_ESC_in_frame:
  "(let f = WritePacket_frame p in
      2 \<le> length f \<and> count_list f END = 2 \<and> hd f = END \<and> last f = END \<and>
      END \<notin> set (butlast (tl f)) \<and>
      (\<forall>i. i < length f \<and> f ! i = ESC \<longrightarrow>
         Suc i < length f \<and> (f ! Suc i = ESC_END \<or> f ! Suc i = ESC_ESC)) \<and>
      (\<forall>i. 0 < i \<and> i < length f - 1 \<and> (f ! i = END \<or> f ! i = ESC) \<longrightarrow> escaped_at f i)) \<and>
   (b \<noteq> END \<and> b \<noteq> ESC \<longrightarrow> WritePacket_frame [b] = [END, b, END]) \<and>
   (b \<noteq> END \<and> b \<noteq> ESC \<longrightarrow>
      WritePacket_frame (p1 @ [b] @ p2) =
        [END] @ concat (map stuff p1) @ [b] @ concat (map stuff p2) @ [END] \<and>
      WritePacket_frame (p1 @ [b] @ p2) =
        WritePacket_loop p1 [END] @ [b] @ WritePacket_loop p2 [] @ [END]) \<and>
   ((\<forall>x \<in> set q. x \<noteq> END \<and> x \<noteq> ESC) \<longrightarrow> WritePacket_frame q = [END] @ q @ [END])"
proof -
  define f where "f = WritePacket_frame p"
  have f: "f = END # concat (map stuff p) @ [END]"
    by (simp add: f_def WritePacket_frame_stuff)
  have len: "2 \<le> length f" and hd: "hd f = END" and last: "last f = END"
    by (simp_all add: f)
  have cnt: "count_list f END = 2"
    by (simp add: f_def count_END_frame)
  have mid: "END \<notin> set (butlast (tl f))"
    using END_notin_stuffed [of p] by (simp add: f butlast_append)
  have esc: "Suc i < length f \<and> (f ! Suc i = ESC_END \<or> f ! Suc i = ESC_ESC)"
    if "i < length f \<and> f ! i = ESC" for i
    using that esc_ok_frame [of p] esc_ok_nth [of f i] by (simp add: f_def)
  have unesc: "escaped_at f i"
    if "0 < i \<and> i < length f - 1 \<and> (f ! i = END \<or> f ! i = ESC)" for i
  proof -
    from that obtain j where j: "i = Suc j" "j < length (concat (map stuff p))"
      by (cases i) (auto simp: f)
    then have "f ! i = concat (map stuff p) ! j"
      by (simp add: f nth_append)
    with j END_notin_stuffed [of p] have "f ! i \<noteq> END"
      by (metis nth_mem)
    with that have e: "f ! i = ESC" by simp
    from that have i: "i < length f" by arith
    from esc [of i] e i show ?thesis by (simp add: escaped_at_def)
  qed
  have lit: "WritePacket_frame [b] = [END, b, END]" if "b \<noteq> END \<and> b \<noteq> ESC"
    using that by (simp add: WritePacket_frame_def)
  have at: "WritePacket_frame (p1 @ [b] @ p2) =
        [END] @ concat (map stuff p1) @ [b] @ concat (map stuff p2) @ [END] \<and>
      WritePacket_frame (p1 @ [b] @ p2) =
        WritePacket_loop p1 [END] @ [b] @ WritePacket_loop p2 [] @ [END]"
    if "b \<noteq> END \<and> b \<noteq> ESC"
    using that WritePacket_frame_literal_at [of b p1 p2]
    by (simp add: WritePacket_loop_stuff)
  have all: "WritePacket_frame q = [END] @ q @ [END]"
    if "\<forall>x \<in> set q. x \<noteq> END \<and> x \<noteq> ESC"
    using that stuffed_literal [of q] by (simp add: WritePacket_frame_stuff)
  have first: "let f = WritePacket_frame p in
      2 \<le> length f \<and> count_list f END = 2 \<and> hd f = END \<and> last f = END \<and>
      END \<notin> set (butlast (tl f)) \<and>
      (\<forall>i. i < length f \<and> f ! i = ESC \<longrightarrow>
         Suc i < length f \<and> (f ! Suc i = ESC_END \<or> f ! Suc i = ESC_ESC)) \<and>
      (\<forall>i. 0 < i \<and> i < length f - 1 \<and> (f ! i = END \<or> f ! i = ESC) \<longrightarrow> escaped_at f i)"
    using len cnt hd last mid esc unesc
    unfolding f_def [symmetric] Let_def by simp
  from first lit at all show ?thesis
    by blast
qed

theorem C6_END_and_ESC_in_frame_witness:
  "WritePacket_frame [0x41, 0xC0, 0xDB, 0xDC] =
     [0xC0, 0x41, 0xDB, 0xDC, 0xDB, 0xDD, 0xDC, 0xC0] \<and>
   count_list (WritePacket_frame [0x41, 0xC0, 0xDB, 0xDC]) END = 2 \<and>
   WritePacket_frame [0x41, 0xC0, 0xDB, 0xDC] ! 4 = ESC \<and>
   WritePacket_frame [0x41, 0xC0, 0xDB, 0xDC] ! 5 = ESC_ESC \<and>
   escaped_at (WritePacket_frame [0x41, 0xC0, 0xDB, 0xDC]) 4 \<and>
   WritePacket_frame [0xDC] = [END, 0xDC, END] \<and>
   WritePacket_frame ([0xC0, 0x41] @ [0xDC] @ [0xDB, 0xDD]) =
     [0xC0, 0xDB, 0xDC, 0x41, 0xDC, 0xDB, 0xDD, 0xDD, 0xC0] \<and>
   WritePacket_frame [0xDD, 0x41, 0xDC, 0xDC] = [0xC0, 0xDD, 0x41, 0xDC, 0xDC, 0xC0]"
proof -
  have f: "WritePacket_frame [0x41, 0xC0, 0xDB, 0xDC] =
     [0xC0, 0x41, 0xDB, 0xDC, 0xDB, 0xDD, 0xDC, 0xC0]"
    by (simp add: WritePacket_frame_def slip_consts)
  have 4: "WritePacket_frame [0x41, 0xC0, 0xDB, 0xDC] ! 4 = ESC"
    by (simp add: f slip_consts)
  note C6 = C6_END_and_ESC_in_frame [where p = "[0x41, 0xC0, 0xDB, 0xDC]" and b = "0xDC"
      and ?p1.0 = "[0xC0, 0x41]" and ?p2.0 = "[0xDB, 0xDD]" and q = "[0xDD, 0x41, 0xDC, 0xDC]",
      unfolded Let_def]
  have cnt: "count_list (WritePacket_frame [0x41, 0xC0, 0xDB, 0xDC]) END = 2"
    using C6 by blast
  have 5: "WritePacket_frame [0x41, 0xC0, 0xDB, 0xDC] ! 5 = ESC_ESC"
    by (simp add: f slip_consts)
  have esc: "escaped_at (WritePacket_frame [0x41, 0xC0, 0xDB, 0xDC]) 4"
  proof -
    have "0 < (4::nat) \<and> 4 < length (WritePacket_frame [0x41, 0xC0, 0xDB, 0xDC]) - 1 \<and>
      (WritePacket_frame [0x41, 0xC0, 0xDB, 0xDC] ! 4 = END \<or>
       WritePacket_frame [0x41, 0xC0, 0xDB, 0xDC] ! 4 = ESC)"
      by (simp add: f slip_consts)
    with C6 show ?thesis by blast
  qed
  have lit: "WritePacket_frame [0xDC] = [END, 0xDC, END]"
    using C6 by (simp add: slip_consts)
  have b: "(0xDC :: byte) \<noteq> END \<and> (0xDC :: byte) \<noteq> ESC"
    by (simp add: slip_consts)
  have "WritePacket_frame ([0xC0, 0x41] @ [0xDC] @ [0xDB, 0xDD]) =
      [END] @ concat (map stuff [0xC0, 0x41]) @ [0xDC] @ concat (map stuff [0xDB, 0xDD]) @ [END]"
    using C6 b by blast
  then have at: "WritePacket_frame ([0xC0, 0x41] @ [0xDC] @ [0xDB, 0xDD]) =
     [0xC0, 0xDB, 0xDC, 0x41, 0xDC, 0xDB, 0xDD, 0xDD, 0xC0]"
    by (simp add: stuff_def slip_consts)
  have "\<forall>x \<in> set [0xDD, 0x41, 0xDC, 0xDC :: byte]. x \<noteq> END \<and> x \<noteq> ESC"
    by (simp add: slip_consts)
  with C6 have "WritePacket_frame [0xDD, 0x41, 0xDC, 0xDC] = [END] @ [0xDD, 0x41, 0xDC, 0xDC] @ [END]"
    by blast
  then have all: "WritePacket_frame [0xDD, 0x41, 0xDC, 0xDC] = [0xC0, 0xDD, 0x41, 0xDC, 0xDC, 0xC0]"
    by (simp add: slip_consts)
  from f cnt 4 5 esc lit at all show ?thesis by blast
qed

text \<open>
  C6 at the reserved value \<open>0xDC\<close>, where it fails: as a payload byte it stands
  in the stuffed region of the frame as it is, after no \<open>ESC\<close>.
\<close>

theorem C6_escaped_END_value_counterexample:
  "WritePacket_frame [0xDC] = [0xC0, 0xDC, 0xC0] \<and>
   reserved (WritePacket_frame [0xDC] ! 1) \<and>
   \<not> escaped_at (WritePacket_frame [0xDC]) 1"
  by (simp add: WritePacket_frame_def reserved_def escaped_at_def slip_consts)


text \<open>
  C7. \<^verbatim>\<open>WritePacket\<close> calls \<^verbatim>\<open>Write\<close> of the underlying writer once, with the whole
  frame, and returns the error of that call as it is: on any writer, instrumented to
  record its calls, the record grows by that one call, the writer is left in the state
  that call left it in, and the result is that call's error.
\<close>

theorem C7_single_write:
  "WritePacket (logging wr) (calls, w) p =
     (case wr w (WritePacket_frame p) of
        ((n, err), w') \<Rightarrow> (err, (calls @ [WritePacket_frame p], w')))"
  by (simp add: WritePacket_logging split: prod.splits)

theorem C7_single_write_witness:
  "WritePacket (logging (fail_write (IOError ''broken pipe''))) ([], []) [0x01, 0xC0] =
     (Some (IOError ''broken pipe''), ([[0xC0, 0x01, 0xDB, 0xDC, 0xC0]], [])) \<and>
   WritePacket (logging sink_write) ([], []) [0x01, 0xC0] =
     (None, ([[0xC0, 0x01, 0xDB, 0xDC, 0xC0]], [0xC0, 0x01, 0xDB, 0xDC, 0xC0]))"
  using C7_single_write [of "fail_write (IOError ''broken pipe'')" "[]" "[]" "[0x01, 0xC0]"]
    C7_single_write [of sink_write "[]" "[]" "[0x01, 0xC0]"]
  by (simp add: fail_write_def sink_write_def WritePacket_frame_def slip_consts)


text \<open>
  C8. A read that returns one byte together with a non-nil error ends the call: the
  result is the buffer as it was before that read, \<^verbatim>\<open>isPrefix = true\<close> and the error,
  whatever the byte is, also when the read is the one that follows an \<open>ESC\<close>; the byte
  goes into no packet. The same byte delivered with a nil error is appended.
\<close>

theorem C8_byte_with_error_dropped:
  "(rd r = (\<lparr>rd_n = 1, rd_byte = b, rd_err = Some e\<rparr>, r1) \<longrightarrow>
      ReadPacket_loop rd r buf =
        Some (\<lparr>ret_p = buf, ret_isPrefix = True, ret_err = Some e\<rparr>, r1)) \<and>
   (rd r = (ok_byte ESC, r1) \<longrightarrow> rd r1 = (\<lparr>rd_n = 1, rd_byte = b, rd_err = Some e\<rparr>, r2) \<longrightarrow>
      ReadPacket_loop rd r buf =
        Some (\<lparr>ret_p = buf, ret_isPrefix = True, ret_err = Some e\<rparr>, r2)) \<and>
   (delivers rd r (WritePacket_loop q [END]) r1 \<longrightarrow>
    rd r1 = (\<lparr>rd_n = 1, rd_byte = b, rd_err = Some e\<rparr>, r2) \<longrightarrow>
      ReadPacket rd r = Some (\<lparr>ret_p = q, ret_isPrefix = True, ret_err = Some e\<rparr>, r2)) \<and>
   (rd r = (\<lparr>rd_n = 1, rd_byte = b, rd_err = None\<rparr>, r1) \<longrightarrow> b \<noteq> END \<longrightarrow> b \<noteq> ESC \<longrightarrow>
      ReadPacket_loop rd r buf = ReadPacket_loop rd r1 (buf @ [b]))"
proof (intro impI conjI)
  assume "rd r = (\<lparr>rd_n = 1, rd_byte = b, rd_err = Some e\<rparr>, r1)"
  then show "ReadPacket_loop rd r buf =
      Some (\<lparr>ret_p = buf, ret_isPrefix = True, ret_err = Some e\<rparr>, r1)"
    using ReadPacket_loop_stop [of rd r "\<lparr>rd_n = 1, rd_byte = b, rd_err = Some e\<rparr>" r1 buf]
    by simp
next
  assume "rd r = (ok_byte ESC, r1)" "rd r1 = (\<lparr>rd_n = 1, rd_byte = b, rd_err = Some e\<rparr>, r2)"
  then show "ReadPacket_loop rd r buf =
      Some (\<lparr>ret_p = buf, ret_isPrefix = True, ret_err = Some e\<rparr>, r2)"
    using ReadPacket_loop_ESC_stop
      [of rd r r1 "\<lparr>rd_n = 1, rd_byte = b, rd_err = Some e\<rparr>" r2 buf]
    by simp
next
  assume "delivers rd r (WritePacket_loop q [END]) r1"
    "rd r1 = (\<lparr>rd_n = 1, rd_byte = b, rd_err = Some e\<rparr>, r2)"
  then show "ReadPacket rd r =
      Some (\<lparr>ret_p = q, ret_isPrefix = True, ret_err = Some e\<rparr>, r2)"
    using ReadPacket_loop_stop [of rd r1 "\<lparr>rd_n = 1, rd_byte = b, rd_err = Some e\<rparr>" r2 q]
    by (simp add: ReadPacket_after_stuffed)
next
  assume "rd r = (\<lparr>rd_n = 1, rd_byte = b, rd_err = None\<rparr>, r1)" "b \<noteq> END" "b \<noteq> ESC"
  then show "ReadPacket_loop rd r buf = ReadPacket_loop rd r1 (buf @ [b])"
    using ReadPacket_loop_lit [of rd r b r1 buf] by (simp add: ok_byte_def)
qed

theorem C8_byte_with_error_dropped_witness:
  "ReadPacket script_read
     (bytes_script [0xC0, 0x41] @ [\<lparr>rd_n = 1, rd_byte = 0x42, rd_err = Some EOF\<rparr>] @
      bytes_script [0x43, 0xC0]) =
     Some (\<lparr>ret_p = [0x41], ret_isPrefix = True, ret_err = Some EOF\<rparr>,
           bytes_script [0x43, 0xC0]) \<and>
   ReadPacket script_read (bytes_script [0x43, 0xC0]) =
     Some (\<lparr>ret_p = [0x43], ret_isPrefix = False, ret_err = None\<rparr>, [])"
proof -
  have "delivers script_read
      (bytes_script [0xC0, 0x41] @ [\<lparr>rd_n = 1, rd_byte = 0x42, rd_err = Some EOF\<rparr>] @
       bytes_script [0x43, 0xC0])
      (WritePacket_loop [0x41] [END])
      ([\<lparr>rd_n = 1, rd_byte = 0x42, rd_err = Some EOF\<rparr>] @ bytes_script [0x43, 0xC0])"
    by (simp add: bytes_script_def slip_consts)
  then have 1: "ReadPacket script_read
     (bytes_script [0xC0, 0x41] @ [\<lparr>rd_n = 1, rd_byte = 0x42, rd_err = Some EOF\<rparr>] @
      bytes_script [0x43, 0xC0]) =
     Some (\<lparr>ret_p = [0x41], ret_isPrefix = True, ret_err = Some EOF\<rparr>,
           bytes_script [0x43, 0xC0])"
    using C8_byte_with_error_dropped [where rd = script_read and b = "0x42" and e = EOF
        and q = "[0x41]" and ?r2.0 = "bytes_script [0x43, 0xC0]"
        and ?r1.0 = "[\<lparr>rd_n = 1, rd_byte = 0x42, rd_err = Some EOF\<rparr>] @ bytes_script [0x43, 0xC0]"
        and r = "bytes_script [0xC0, 0x41] @ [\<lparr>rd_n = 1, rd_byte = 0x42, rd_err = Some EOF\<rparr>] @
          bytes_script [0x43, 0xC0]"]
    by simp
  have 2: "ReadPacket script_read (bytes_script [0x43, 0xC0]) =
     Some (\<lparr>ret_p = [0x43], ret_isPrefix = False, ret_err = None\<rparr>, [])"
    by (simp add: script_eval)
  from 1 2 show ?thesis by simp
qed


text \<open>
  C9. A read that returns zero bytes and a nil error ends the call with the bytes
  accumulated so far, \<^verbatim>\<open>isPrefix = true\<close> and a nil error, also when it is the read
  that follows an \<open>ESC\<close>: \<^verbatim>\<open>isPrefix = true\<close> does not come with a non-nil error in
  every case.
\<close>

theorem C9_prefix_with_nil_error:
  "(rd r = (\<lparr>rd_n = 0, rd_byte = b, rd_err = None\<rparr>, r1) \<longrightarrow>
      ReadPacket_loop rd r buf =
        Some (\<lparr>ret_p = buf, ret_isPrefix = True, ret_err = None\<rparr>, r1)) \<and>
   (rd r = (ok_byte ESC, r1) \<longrightarrow> rd r1 = (\<lparr>rd_n = 0, rd_byte = b, rd_err = None\<rparr>, r2) \<longrightarrow>
      ReadPacket_loop rd r buf =
        Some (\<lparr>ret_p = buf, ret_isPrefix = True, ret_err = None\<rparr>, r2)) \<and>
   (delivers rd r (WritePacket_loop q [END]) r1 \<longrightarrow>
    rd r1 = (\<lparr>rd_n = 0, rd_byte = b, rd_err = None\<rparr>, r2) \<longrightarrow>
      ReadPacket rd r = Some (\<lparr>ret_p = q, ret_isPrefix = True, ret_err = None\<rparr>, r2))"
proof (intro impI conjI)
  assume "rd r = (\<lparr>rd_n = 0, rd_byte = b, rd_err = None\<rparr>, r1)"
  then show "ReadPacket_loop rd r buf =
      Some (\<lparr>ret_p = buf, ret_isPrefix = True, ret_err = None\<rparr>, r1)"
    using ReadPacket_loop_stop [of rd r "\<lparr>rd_n = 0, rd_byte = b, rd_err = None\<rparr>" r1 buf]
    by simp
next
  assume "rd r = (ok_byte ESC, r1)" "rd r1 = (\<lparr>rd_n = 0, rd_byte = b, rd_err = None\<rparr>, r2)"
  then show "ReadPacket_loop rd r buf =
      Some (\<lparr>ret_p = buf, ret_isPrefix = True, ret_err = None\<rparr>, r2)"
    using ReadPacket_loop_ESC_stop
      [of rd r r1 "\<lparr>rd_n = 0, rd_byte = b, rd_err = None\<rparr>" r2 buf]
    by simp
next
  assume "delivers rd r (WritePacket_loop q [END]) r1"
    "rd r1 = (\<lparr>rd_n = 0, rd_byte = b, rd_err = None\<rparr>, r2)"
  then show "ReadPacket rd r =
      Some (\<lparr>ret_p = q, ret_isPrefix = True, ret_err = None\<rparr>, r2)"
    using ReadPacket_loop_stop [of rd r1 "\<lparr>rd_n = 0, rd_byte = b, rd_err = None\<rparr>" r2 q]
    by (simp add: ReadPacket_after_stuffed)
qed

theorem C9_prefix_with_nil_error_witness:
  "ReadPacket script_read
     (bytes_script [0xC0, 0x41] @ [\<lparr>rd_n = 0, rd_byte = 0, rd_err = None\<rparr>]) =
     Some (\<lparr>ret_p = [0x41], ret_isPrefix = True, ret_err = None\<rparr>, []) \<and>
   ReadPacket script_read [\<lparr>rd_n = 0, rd_byte = 0, rd_err = None\<rparr>] =
     Some (\<lparr>ret_p = [], ret_isPrefix = True, ret_err = None\<rparr>, [])"
proof -
  have "delivers script_read
      (bytes_script [0xC0, 0x41] @ [\<lparr>rd_n = 0, rd_byte = 0, rd_err = None\<rparr>])
      (WritePacket_loop [0x41] [END]) [\<lparr>rd_n = 0, rd_byte = 0, rd_err = None\<rparr>]"
    by (simp add: bytes_script_def slip_consts)
  then have 1: "ReadPacket script_read
     (bytes_script [0xC0, 0x41] @ [\<lparr>rd_n = 0, rd_byte = 0, rd_err = None\<rparr>]) =
     Some (\<lparr>ret_p = [0x41], ret_isPrefix = True, ret_err = None\<rparr>, [])"
    using C9_prefix_with_nil_error [where rd = script_read and b = 0
        and q = "[0x41]" and ?r2.0 = "[]"
        and ?r1.0 = "[\<lparr>rd_n = 0, rd_byte = 0, rd_err = None\<rparr>]"
        and r = "bytes_script [0xC0, 0x41] @ [\<lparr>rd_n = 0, rd_byte = 0, rd_err = None\<rparr>]"]
    by simp
  have 2: "ReadPacket script_read [\<lparr>rd_n = 0, rd_byte = 0, rd_err = None\<rparr>] =
     Some (\<lparr>ret_p = [], ret_isPrefix = True, ret_err = None\<rparr>, [])"
    using C9_prefix_with_nil_error [where rd = script_read and b = 0 and buf = "[]"
        and ?r1.0 = "[]" and r = "[\<lparr>rd_n = 0, rd_byte = 0, rd_err = None\<rparr>]",
        THEN conjunct1]
    by (simp add: ReadPacket_def)
  from 1 2 show ?thesis by simp
qed


text \<open>
  C10. Right after an \<open>ESC\<close>, a byte \<open>END\<close> or \<open>ESC\<close> is plain data: \<open>END\<close> is appended
  to the buffer and does not end the packet, \<open>ESC\<close> is appended and opens no escape
  sequence (an \<open>escaped-END\<close> that follows it is stored as it is), and the loop goes
  on with a new read.
\<close>

theorem C10_byte_after_ESC_is_data:
  "(rd r = (ok_byte ESC, r1) \<longrightarrow> rd r1 = (ok_byte END, r2) \<longrightarrow>
      ReadPacket_loop rd r buf = ReadPacket_loop rd r2 (buf @ [END])) \<and>
   (rd r = (ok_byte ESC, r1) \<longrightarrow> rd r1 = (ok_byte ESC, r2) \<longrightarrow>
      ReadPacket_loop rd r buf = ReadPacket_loop rd r2 (buf @ [ESC])) \<and>
   (rd r = (ok_byte ESC, r1) \<longrightarrow> rd r1 = (ok_byte ESC, r2) \<longrightarrow>
    rd r2 = (ok_byte ESC_END, r3) \<longrightarrow>
      ReadPacket_loop rd r buf = ReadPacket_loop rd r3 (buf @ [ESC, ESC_END]))"
  by (simp add: ReadPacket_loop_ESC ReadPacket_loop_lit consts_distinct)

theorem C10_byte_after_ESC_is_data_witness:
  "ReadPacket script_read (bytes_script [0x41, 0xDB, 0xC0, 0x42, 0xC0]) =
     Some (\<lparr>ret_p = [0x41, 0xC0, 0x42], ret_isPrefix = False, ret_err = None\<rparr>, []) \<and>
   ReadPacket script_read (bytes_script [0xDB, 0xDB, 0xDC, 0xC0]) =
     Some (\<lparr>ret_p = [0xDB, 0xDC], ret_isPrefix = False, ret_err = None\<rparr>, [])"
proof -
  have "ReadPacket_loop script_read (bytes_script [0xDB, 0xC0, 0x42, 0xC0]) [0x41] =
      ReadPacket_loop script_read (bytes_script [0x42, 0xC0]) ([0x41] @ [END])"
    using C10_byte_after_ESC_is_data [where rd = script_read
        and r = "bytes_script [0xDB, 0xC0, 0x42, 0xC0]" and ?r1.0 = "bytes_script [0xC0, 0x42, 0xC0]"
        and ?r2.0 = "bytes_script [0x42, 0xC0]" and buf = "[0x41]", THEN conjunct1]
    by (simp add: bytes_script_def slip_consts)
  then have 1: "ReadPacket script_read (bytes_script [0x41, 0xDB, 0xC0, 0x42, 0xC0]) =
     Some (\<lparr>ret_p = [0x41, 0xC0, 0x42], ret_isPrefix = False, ret_err = None\<rparr>, [])"
    by (simp add: script_eval)
  have "ReadPacket_loop script_read (bytes_script [0xDB, 0xDB, 0xDC, 0xC0]) [] =
      ReadPacket_loop script_read (bytes_script [0xC0]) ([] @ [ESC, ESC_END])"
    using C10_byte_after_ESC_is_data [where rd = script_read
        and r = "bytes_script [0xDB, 0xDB, 0xDC, 0xC0]" and ?r1.0 = "bytes_script [0xDB, 0xDC, 0xC0]"
        and ?r2.0 = "bytes_script [0xDC, 0xC0]" and ?r3.0 = "bytes_script [0xC0]" and buf = "[]",
        THEN conjunct2, THEN conjunct2]
    by (simp add: bytes_script_def slip_consts)
  then have 2: "ReadPacket script_read (bytes_script [0xDB, 0xDB, 0xDC, 0xC0]) =
     Some (\<lparr>ret_p = [0xDB, 0xDC], ret_isPrefix = False, ret_err = None\<rparr>, [])"
    by (simp add: script_eval)
  from 1 2 show ?thesis by simp
qed

end
